theory Spec2Isabelle
  imports
    Complex_Main
    "HOL-Library.Char_ord"
    "HOL-Library.List_Lexorder"
    "HOL-Library.Product_Lexorder"
begin

section \<open>Laufchallenge dashboard: the table pipeline of app.py\<close>

text \<open>
  The dashboard reads a sheet of running-log rows, coerces the cells of three columns,
  derives a string form of the calendar week, and computes grouped sums, a cumulative sum
  per group, two records and two leaderboards. The development below follows app.py
  section by section. Distances are modelled as exact reals where the program uses
  binary floating point; a text column holds strings ordered as Python orders them
  (lexicographically by character code).
\<close>

subsection \<open>Configuration (app.py, section 0)\<close>

text \<open>Python's \<open>str\<close> of an integer, written out so that it can be evaluated.\<close>

definition digit_char :: "nat \<Rightarrow> char" where
  "digit_char n = ''0123456789'' ! n"

fun str_nat :: "nat \<Rightarrow> string" where
  "str_nat n = (if n < 10 then [digit_char n] else str_nat (n div 10) @ [digit_char (n mod 10)])"

declare str_nat.simps [simp del]

definition str_int :: "int \<Rightarrow> string" where
  "str_int k = (if k < 0 then CHR ''-'' # str_nat (nat (- k)) else str_nat (nat k))"

definition CHALLENGE_KWS :: "int list" where
  "CHALLENGE_KWS = [45, 46, 47, 48, 49, 50, 51, 52, 1, 2, 3, 4, 5, 6, 7, 8, 9, 10]"

definition CHALLENGE_KWS_STR :: "string list" where
  "CHALLENGE_KWS_STR = map str_int CHALLENGE_KWS"

subsection \<open>Rows and tables\<close>

text \<open>
  A row after the three coercions of \<open>transform_data\<close>: \<open>KM\<close> is the result of
  \<open>pd.to_numeric(errors='coerce')\<close> (\<open>None\<close> is NaN), \<open>Datum\<close> the result of
  \<open>pd.to_datetime(format='%d.%m.%Y', errors='coerce')\<close> (\<open>None\<close> is NaT, a date is
  day, month, year), \<open>KW\<close> the result of the numeric coercion of the week cell
  (\<open>None\<close> is NaN; a week that parses is an integer). A normalized row carries
  the derived column \<open>KW_STR\<close> as well.
\<close>

type_synonym date = "nat \<times> nat \<times> nat"

record raw_row =
  Gruppe :: string
  Name :: string
  KM :: "real option"
  Datum :: "date option"
  KW :: "int option"

record row = raw_row +
  KW_STR :: string

text \<open>
  A table is its rows and the columns it has, by their names after line 77 has trimmed
  them. The columns \<open>Datum\<close> and \<open>KW\<close> are read unconditionally by
  \<open>transform_data\<close>, so every table that reaches the dashboard has them; \<open>KM\<close> is
  checked by line 79, and \<open>Gruppe\<close> and \<open>Name\<close> are optional. In a table without
  \<open>Gruppe\<close> or \<open>Name\<close> the field of that name is not read by the sections that
  run.
\<close>

record raw_table =
  raw_rows :: "raw_row list"
  raw_has_KM :: bool
  raw_has_Gruppe :: bool
  raw_has_Name :: bool

record table =
  rows :: "row list"
  has_Gruppe :: bool
  has_Name :: bool

subsection \<open>Normalization (transform_data, lines 83 to 86)\<close>

text \<open>
  \<open>pd.to_numeric(..., downcast='integer')\<close> yields an integer column only when no cell
  is NaN; otherwise the column stays float64. \<open>astype(str)\<close> then writes an integer as
  Python's \<open>str\<close> does, a float with integral value \<open>k\<close> as \<open>k.0\<close>, and NaN as
  \<open>nan\<close>.
\<close>

definition kw_is_integer :: "raw_row list \<Rightarrow> bool" where
  "kw_is_integer rs = list_all (\<lambda>r. KW r \<noteq> None) rs"

definition kw_astype_str :: "bool \<Rightarrow> int option \<Rightarrow> string" where
  "kw_astype_str is_int v =
     (case v of
        None \<Rightarrow> ''nan''
      | Some k \<Rightarrow> if is_int then str_int k else str_int k @ ''.0'')"

definition add_KW_STR :: "bool \<Rightarrow> raw_row \<Rightarrow> row" where
  "add_KW_STR is_int r =
     \<lparr>Gruppe = Gruppe r, Name = Name r, KM = KM r, Datum = Datum r, KW = KW r,
      KW_STR = kw_astype_str is_int (KW r)\<rparr>"

definition normalize_rows :: "raw_row list \<Rightarrow> row list" where
  "normalize_rows rs = map (add_KW_STR (kw_is_integer rs)) rs"

subsection \<open>Aggregation (transform_data, lines 91 to 116)\<close>

text \<open>A sum over a \<open>KM\<close> column skips NaN, so a missing distance adds 0.\<close>

definition km0 :: "'a row_scheme \<Rightarrow> real" where
  "km0 r = (case KM r of None \<Rightarrow> 0 | Some x \<Rightarrow> x)"

definition sum_km :: "'a row_scheme list \<Rightarrow> real" where
  "sum_km rs = sum_list (map km0 rs)"

text \<open>
  \<open>df.groupby(key)['KM'].sum()\<close>: one entry for each key that occurs, in ascending
  key order, holding the sum of the distances of the rows with that key.
\<close>

definition groupby_sum :: "(row \<Rightarrow> 'k::linorder) \<Rightarrow> row list \<Rightarrow> ('k \<times> real) list" where
  "groupby_sum key rs =
     map (\<lambda>k. (k, sum_km (filter (\<lambda>r. key r = k) rs))) (sort (remdups (map key rs)))"

definition weekly_summary_of :: "row list \<Rightarrow> (string \<times> real) list" where
  "weekly_summary_of rs = groupby_sum KW_STR rs"

text \<open>
  The ordered categorical of lines 101 to 105 replaces a week string by its position in
  \<open>CHALLENGE_KWS_STR\<close>; sorting and grouping then go by that position.
\<close>

fun index_of :: "'a \<Rightarrow> 'a list \<Rightarrow> nat" where
  "index_of x [] = 0"
| "index_of x (y # ys) = (if x = y then 0 else Suc (index_of x ys))"

definition kw_code :: "string \<Rightarrow> nat" where
  "kw_code w = index_of w CHALLENGE_KWS_STR"

text \<open>
  \<open>groupby('Gruppe')['KM'].cumsum()\<close>: rows keep their order, and each row gets the
  running sum of the rows of its own group so far. The accumulator maps a group to
  its running sum. An entry is (group, week code, weekly sum), then with the
  cumulative value as fourth component.
\<close>

fun cumsum_by_group ::
  "(string \<Rightarrow> real) \<Rightarrow> (string \<times> nat \<times> real) list \<Rightarrow> (string \<times> nat \<times> real \<times> real) list" where
  "cumsum_by_group acc [] = []"
| "cumsum_by_group acc ((g, c, km) # es) =
     (g, c, km, acc g + km) # cumsum_by_group (acc(g := acc g + km)) es"

definition df_filtered_kws :: "row list \<Rightarrow> row list" where
  "df_filtered_kws rs = filter (\<lambda>r. KW_STR r \<in> set CHALLENGE_KWS_STR) rs"

definition group_weekly_sums :: "row list \<Rightarrow> (string \<times> nat \<times> real) list" where
  "group_weekly_sums rs =
     map (\<lambda>((g, c), km). (g, c, km))
       (groupby_sum (\<lambda>r. (Gruppe r, kw_code (KW_STR r))) (df_filtered_kws rs))"

definition group_weekly_of :: "row list \<Rightarrow> (string \<times> string \<times> real \<times> real) list" where
  "group_weekly_of rs =
     map (\<lambda>(g, c, km, cum). (g, CHALLENGE_KWS_STR ! c, km, cum))
       (cumsum_by_group (\<lambda>_. 0)
         (sort_key (\<lambda>(g, c, km). (g, c)) (group_weekly_sums rs)))"

text \<open>
  \<open>transform_data\<close> returns the normalized table, the weekly summary and the
  group-weekly table; without a \<open>KM\<close> column it reports the error and returns
  three empty frames, and without a \<open>Gruppe\<close> column the third is empty.
\<close>

definition empty_table :: table where
  "empty_table = \<lparr>rows = [], has_Gruppe = False, has_Name = False\<rparr>"

definition transform_data ::
  "raw_table \<Rightarrow> table \<times> (string \<times> real) list \<times> (string \<times> string \<times> real \<times> real) list" where
  "transform_data raw =
     (if \<not> raw_has_KM raw then (empty_table, [], [])
      else
        let df = \<lparr>rows = normalize_rows (raw_rows raw),
                  has_Gruppe = raw_has_Gruppe raw, has_Name = raw_has_Name raw\<rparr>;
            weekly_summary = weekly_summary_of (rows df);
            group_weekly = (if has_Gruppe df then group_weekly_of (rows df) else [])
        in (df, weekly_summary, group_weekly))"

text \<open>
  The dashboard stops with a notice when the table is empty or its total distance is 0
  (line 123).
\<close>

definition no_data :: "table \<Rightarrow> bool" where
  "no_data df = (rows df = [] \<or> sum_km (rows df) = 0)"

subsection \<open>Sidebar filters (section 3, lines 144 to 177)\<close>

text \<open>
  The week selector offers the string \<open>Gesamt\<close> and the week numbers, so a selected
  week is a value of its own type. A selector is shown only when its column exists;
  otherwise the selection keeps its initial sentinel. The arguments \<open>pick_group\<close>,
  \<open>pick_runner\<close> and \<open>pick_kw\<close> are what the user picks in the three select boxes.
\<close>

datatype kw_option = Gesamt | Woche int

definition with_rows :: "table \<Rightarrow> row list \<Rightarrow> table" where
  "with_rows df rs = df\<lparr>rows := rs\<rparr>"

definition group_options :: "table \<Rightarrow> string list" where
  "group_options df = ''Alle'' # sort (remdups (map Gruppe (rows df)))"

definition selected_group :: "table \<Rightarrow> string \<Rightarrow> string" where
  "selected_group df pick_group = (if has_Gruppe df then pick_group else ''Alle'')"

definition filter_group :: "table \<Rightarrow> string \<Rightarrow> table" where
  "filter_group df pick_group =
     (if has_Gruppe df \<and> selected_group df pick_group \<noteq> ''Alle''
      then with_rows df (filter (\<lambda>r. Gruppe r = selected_group df pick_group) (rows df))
      else df)"

definition runner_options :: "table \<Rightarrow> string \<Rightarrow> string list" where
  "runner_options df pick_group =
     ''Alle'' # sort (remdups (map Name (rows (filter_group df pick_group))))"

definition selected_runner :: "table \<Rightarrow> string \<Rightarrow> string" where
  "selected_runner df pick_runner = (if has_Name df then pick_runner else ''Alle'')"

definition filter_runner :: "table \<Rightarrow> string \<Rightarrow> table" where
  "filter_runner df pick_runner =
     (if has_Name df \<and> selected_runner df pick_runner \<noteq> ''Alle''
      then with_rows df (filter (\<lambda>r. Name r = selected_runner df pick_runner) (rows df))
      else df)"

definition kw_options :: "kw_option list" where
  "kw_options = Gesamt # map Woche CHALLENGE_KWS"

definition filter_kw :: "table \<Rightarrow> kw_option \<Rightarrow> table" where
  "filter_kw df selected_kw =
     (case selected_kw of
        Gesamt \<Rightarrow> df
      | Woche k \<Rightarrow> with_rows df (filter (\<lambda>r. KW r = Some k) (rows df)))"

definition df_filtered :: "table \<Rightarrow> string \<Rightarrow> string \<Rightarrow> kw_option \<Rightarrow> table" where
  "df_filtered df pick_group pick_runner pick_kw =
     filter_kw (filter_runner (filter_group df pick_group) pick_runner) pick_kw"

subsection \<open>Records (section 5, lines 233 to 265)\<close>

datatype error = ValueError

text \<open>
  \<open>df['KM'].idxmax()\<close> is the position of the first largest value that is not NaN.
  With no such value there is no position; the dashboard has stopped before in
  that case, since the total distance is then 0.
\<close>

fun idxmax_from :: "nat \<Rightarrow> (nat \<times> real) option \<Rightarrow> real option list \<Rightarrow> nat option" where
  "idxmax_from i best [] = map_option fst best"
| "idxmax_from i best (None # vs) = idxmax_from (Suc i) best vs"
| "idxmax_from i best (Some v # vs) =
     (case best of
        None \<Rightarrow> idxmax_from (Suc i) (Some (i, v)) vs
      | Some (j, b) \<Rightarrow>
          if b < v then idxmax_from (Suc i) (Some (i, v)) vs
          else idxmax_from (Suc i) best vs)"

definition idxmax :: "real option list \<Rightarrow> nat option" where
  "idxmax vs = idxmax_from 0 None vs"

definition two_digits :: "nat \<Rightarrow> string" where
  "two_digits n = (if n < 10 then CHR ''0'' # str_nat n else str_nat n)"

text \<open>
  \<open>strftime('%d.%m.')\<close> on a timestamp; on NaT it raises ValueError.
\<close>

definition strftime_dm :: "date option \<Rightarrow> error + string" where
  "strftime_dm d =
     (case d of
        None \<Rightarrow> Inl ValueError
      | Some (day, month, year) \<Rightarrow> Inr (two_digits day @ ''.'' @ two_digits month @ ''.''))"

text \<open>The longest single distance: its value, its runner and the formatted date.\<close>

definition longest_run :: "table \<Rightarrow> error + (real option \<times> string \<times> string)" where
  "longest_run df =
     (case idxmax (map KM (rows df)) of
        None \<Rightarrow> Inl ValueError
      | Some i \<Rightarrow>
          let max_km_entry = rows df ! i in
          (case strftime_dm (Datum max_km_entry) of
             Inl e \<Rightarrow> Inl e
           | Inr max_km_date \<Rightarrow> Inr (KM max_km_entry, Name max_km_entry, max_km_date)))"

text \<open>
  \<open>df.groupby('Name')['KM'].count()\<close>: for each name, in ascending order, the number
  of its rows whose \<open>KM\<close> is not NaN.
\<close>

definition runner_runs :: "table \<Rightarrow> (string \<times> nat) list" where
  "runner_runs df =
     map (\<lambda>n. (n, length (filter (\<lambda>r. Name r = n \<and> KM r \<noteq> None) (rows df))))
       (sort (remdups (map Name (rows df))))"

text \<open>The maximum of a series; of an empty series it is NaN, here \<open>None\<close>.\<close>

definition series_max :: "('a::linorder) list \<Rightarrow> 'a option" where
  "series_max vs = (case vs of [] \<Rightarrow> None | v # ws \<Rightarrow> Some (fold max ws v))"

definition most_runs :: "table \<Rightarrow> nat option" where
  "most_runs df = series_max (map snd (runner_runs df))"

definition runners_with_max_runs :: "table \<Rightarrow> string list" where
  "runners_with_max_runs df =
     map fst (filter (\<lambda>(n, c). Some c = most_runs df) (runner_runs df))"

fun join :: "string \<Rightarrow> string list \<Rightarrow> string" where
  "join sep [] = []"
| "join sep [x] = x"
| "join sep (x # y # ys) = x @ sep @ join sep (y # ys)"

definition runners_list :: "table \<Rightarrow> string" where
  "runners_list df = join '', '' (runners_with_max_runs df)"

text \<open>
  The records section runs only with a \<open>Name\<close> column; an exception in it ends the
  script run. The number of runs shown in the progress box is the number of rows
  (line 208).
\<close>

definition anzahl_laeufe_total :: "table \<Rightarrow> nat" where
  "anzahl_laeufe_total df = length (rows df)"

definition records ::
  "table \<Rightarrow> error + ((real option \<times> string \<times> string) \<times> nat option \<times> string) option" where
  "records df =
     (if has_Name df then
        (case longest_run df of
           Inl e \<Rightarrow> Inl e
         | Inr longest \<Rightarrow> Inr (Some (longest, most_runs df, runners_list df)))
      else Inr None)"

subsection \<open>Group comparison chart (section 6, lines 276 to 291)\<close>

text \<open>
  The chart is drawn when the table has a \<open>Gruppe\<close> column; with \<open>Gesamt\<close> selected
  its values are the groups' totals over the whole table.
  \<open>sort_values('KM', ascending=False)\<close> is modelled as a stable sort by descending
  value; pandas does not promise the order of equal values, and nothing below
  depends on it.
\<close>

definition sort_desc :: "('a \<times> real) list \<Rightarrow> ('a \<times> real) list" where
  "sort_desc xs = sort_key (\<lambda>(k, km). - km) xs"

definition reindex_fill0 :: "'k list \<Rightarrow> ('k \<times> real) list \<Rightarrow> ('k \<times> real) list" where
  "reindex_fill0 ks xs = map (\<lambda>k. (k, case map_of xs k of None \<Rightarrow> 0 | Some v \<Rightarrow> v)) ks"

definition all_groups :: "table \<Rightarrow> string list" where
  "all_groups df = sort (remdups (map Gruppe (rows df)))"

definition group_bar_data :: "table \<Rightarrow> kw_option \<Rightarrow> (string \<times> real) list" where
  "group_bar_data df selected_kw =
     (let df_base = filter_kw df selected_kw in
      if rows df_base \<noteq> []
      then sort_desc (reindex_fill0 (all_groups df) (groupby_sum Gruppe (rows df_base)))
      else map (\<lambda>g. (g, 0)) (all_groups df))"

subsection \<open>Leaderboards (section 8, lines 386 to 426)\<close>

text \<open>
  Both rankings are computed from the filtered table of the sidebar, the team ranking
  when it has a \<open>Gruppe\<close> column and the runner ranking when it has a \<open>Name\<close>
  column. The upper end of a progress column is the maximum of the ranking's totals
  when the ranking is not empty, and 100 otherwise.
\<close>

definition group_ranking :: "table \<Rightarrow> (string \<times> real) list" where
  "group_ranking dff = sort_desc (groupby_sum Gruppe (rows dff))"

definition max_group_km :: "table \<Rightarrow> real" where
  "max_group_km dff =
     (case series_max (map snd (group_ranking dff)) of None \<Rightarrow> 100 | Some m \<Rightarrow> m)"

definition runner_ranking :: "table \<Rightarrow> (string \<times> real) list" where
  "runner_ranking dff = take 10 (sort_desc (groupby_sum Name (rows dff)))"

definition max_runner_km :: "table \<Rightarrow> real" where
  "max_runner_km dff =
     (case series_max (map snd (runner_ranking dff)) of None \<Rightarrow> 100 | Some m \<Rightarrow> m)"

subsection \<open>Reference quantities\<close>

text \<open>
  The quantities the properties below compare the program's tables with, computed
  directly from the rows: the distance of a group in one week, and the sum of one
  group's entries in a list of (group, week code, weekly sum) entries. \<open>gw_key\<close> is
  the grouping key of line 108.
\<close>

definition group_week_total :: "row list \<Rightarrow> string \<Rightarrow> string \<Rightarrow> real" where
  "group_week_total rs g w = sum_km (filter (\<lambda>r. Gruppe r = g \<and> KW_STR r = w) rs)"

definition gsum :: "(string \<times> nat \<times> real) list \<Rightarrow> string \<Rightarrow> real" where
  "gsum es g = sum_list (map (\<lambda>(g', c, km). km) (filter (\<lambda>(g', c, km). g' = g) es))"

abbreviation gw_key :: "row \<Rightarrow> string \<times> nat" where
  "gw_key \<equiv> (\<lambda>r. (Gruppe r, kw_code (KW_STR r)))"

subsection \<open>Example tables\<close>

text \<open>A group with runs in week 1 and week 46 only, the week-1 row first in the sheet.\<close>

definition ex_wrap :: raw_table where
  "ex_wrap = \<lparr>raw_rows =
     [\<lparr>Gruppe = ''X'', Name = ''A'', KM = Some 3, Datum = Some (2, 1, 2026), KW = Some 1\<rparr>,
      \<lparr>Gruppe = ''X'', Name = ''B'', KM = Some 5, Datum = Some (12, 11, 2025), KW = Some 46\<rparr>,
      \<lparr>Gruppe = ''Y'', Name = ''C'', KM = Some 2, Datum = Some (5, 11, 2025), KW = Some 45\<rparr>],
     raw_has_KM = True, raw_has_Gruppe = True, raw_has_Name = True\<rparr>"

text \<open>A group with one run inside the challenge weeks and one in week 30.\<close>

definition ex_outside :: raw_table where
  "ex_outside = \<lparr>raw_rows =
     [\<lparr>Gruppe = ''X'', Name = ''A'', KM = Some 5, Datum = Some (3, 11, 2025), KW = Some 45\<rparr>,
      \<lparr>Gruppe = ''X'', Name = ''A'', KM = Some 3, Datum = Some (21, 7, 2025), KW = Some 30\<rparr>],
     raw_has_KM = True, raw_has_Gruppe = True, raw_has_Name = True\<rparr>"

text \<open>Eleven runners in eleven groups, with 1 to 11 kilometres.\<close>

definition ex_eleven :: table where
  "ex_eleven = \<lparr>rows =
     map (\<lambda>(c, k). \<lparr>Gruppe = [CHR ''G'', c], Name = [CHR ''R'', c], KM = Some k,
                    Datum = Some (3, 11, 2025), KW = Some 45, KW_STR = ''45''\<rparr>)
       (zip ''abcdefghijk'' [1, 2, 3, 4, 5, 6, 7, 8, 9, 10, 11]),
     has_Gruppe = True, has_Name = True\<rparr>"

text \<open>One run whose date cell does not parse.\<close>

definition ex_nat :: raw_table where
  "ex_nat = \<lparr>raw_rows =
     [\<lparr>Gruppe = ''X'', Name = ''A'', KM = Some 5, Datum = None, KW = Some 45\<rparr>],
     raw_has_KM = True, raw_has_Gruppe = True, raw_has_Name = True\<rparr>"

text \<open>Two runners with two rows each; one row of runner A has a distance that does not parse.\<close>

definition ex_runs :: raw_table where
  "ex_runs = \<lparr>raw_rows =
     [\<lparr>Gruppe = ''X'', Name = ''A'', KM = Some 5, Datum = Some (3, 11, 2025), KW = Some 45\<rparr>,
      \<lparr>Gruppe = ''X'', Name = ''A'', KM = None, Datum = Some (17, 11, 2025), KW = Some 47\<rparr>,
      \<lparr>Gruppe = ''X'', Name = ''B'', KM = Some 3, Datum = Some (4, 11, 2025), KW = Some 45\<rparr>,
      \<lparr>Gruppe = ''X'', Name = ''B'', KM = Some 4, Datum = Some (11, 11, 2025), KW = Some 46\<rparr>],
     raw_has_KM = True, raw_has_Gruppe = True, raw_has_Name = True\<rparr>"

text \<open>Two runs, the second with a week cell that does not parse.\<close>

definition ex_nan_week :: raw_table where
  "ex_nan_week = \<lparr>raw_rows =
     [\<lparr>Gruppe = ''X'', Name = ''A'', KM = Some 5, Datum = Some (3, 11, 2025), KW = Some 45\<rparr>,
      \<lparr>Gruppe = ''Y'', Name = ''B'', KM = Some 2, Datum = Some (4, 11, 2025), KW = None\<rparr>],
     raw_has_KM = True, raw_has_Gruppe = True, raw_has_Name = True\<rparr>"

section \<open>Properties\<close>

subsection \<open>Grouped sums and the cumulative sum\<close>

lemma sum_km_Nil: "sum_km [] = 0" by (simp add: sum_km_def)
lemma sum_km_Cons: "sum_km (r # rs) = km0 r + sum_km rs" by (simp add: sum_km_def)

lemma sum_list_delta:
  "distinct ks \<Longrightarrow> sum_list (map (\<lambda>k. if a = k then (v::real) else 0) ks) = (if a \<in> set ks then v else 0)"
  by (induction ks) auto

lemma sum_km_filter_keys:
  "distinct ks \<Longrightarrow>
   sum_list (map (\<lambda>k. sum_km (filter (\<lambda>r. key r = k) rs)) ks) = sum_km (filter (\<lambda>r. key r \<in> set ks) rs)"
proof (induction rs)
  case Nil
  then show ?case by (simp add: sum_km_Nil)
next
  case (Cons r rs)
  have "sum_list (map (\<lambda>k. sum_km (filter (\<lambda>r. key r = k) (r # rs))) ks)
      = sum_list (map (\<lambda>k. (if key r = k then km0 r else 0) + sum_km (filter (\<lambda>r. key r = k) rs)) ks)"
    by (rule arg_cong [where f = sum_list], rule map_cong) (auto simp: sum_km_Cons)
  also have "\<dots> = sum_list (map (\<lambda>k. if key r = k then km0 r else 0) ks)
      + sum_list (map (\<lambda>k. sum_km (filter (\<lambda>r. key r = k) rs)) ks)"
    by (simp add: sum_list_addf)
  also have "\<dots> = (if key r \<in> set ks then km0 r else 0) + sum_km (filter (\<lambda>r. key r \<in> set ks) rs)"
    using Cons by (simp add: sum_list_delta)
  finally show ?case by (simp add: sum_km_Cons)
qed

lemma groupby_sum_keys: "map fst (groupby_sum key rs) = sort (remdups (map key rs))"
  by (simp add: groupby_sum_def comp_def)

lemma groupby_sum_strict: "sorted_wrt (<) (map fst (groupby_sum key rs))"
  by (simp add: groupby_sum_keys strict_sorted_iff)

lemma groupby_sum_mem:
  "(k, v) \<in> set (groupby_sum key rs) \<longleftrightarrow> k \<in> key ` set rs \<and> v = sum_km (filter (\<lambda>r. key r = k) rs)"
  by (auto simp: groupby_sum_def)

lemma groupby_sum_map_of:
  "map_of (groupby_sum key rs) k =
     (if k \<in> key ` set rs then Some (sum_km (filter (\<lambda>r. key r = k) rs)) else None)"
proof -
  have d: "distinct (map fst (groupby_sum key rs))" by (simp add: groupby_sum_keys)
  show ?thesis
  proof (cases "k \<in> key ` set rs")
    case True
    then have "(k, sum_km (filter (\<lambda>r. key r = k) rs)) \<in> set (groupby_sum key rs)"
      by (simp add: groupby_sum_mem)
    with d True show ?thesis by simp
  next
    case False
    then have "k \<notin> fst ` set (groupby_sum key rs)"
      by (auto simp: groupby_sum_mem)
    then show ?thesis using False by (simp add: map_of_eq_None_iff)
  qed
qed

lemma cumsum_by_group_append:
  "cumsum_by_group acc (xs @ ys) =
     cumsum_by_group acc xs @ cumsum_by_group (\<lambda>g. acc g + gsum xs g) ys"
proof (induction xs arbitrary: acc)
  case Nil
  then show ?case by (simp add: gsum_def)
next
  case (Cons e xs)
  obtain g c km where e: "e = (g, c, km)" by (cases e)
  have "(\<lambda>h. (acc(g := acc g + km)) h + gsum xs h) = (\<lambda>h. acc h + gsum (e # xs) h)"
    by (auto simp: e gsum_def fun_eq_iff)
  then show ?case using Cons [of "acc(g := acc g + km)"] by (simp add: e fun_upd_def)
qed

lemma length_cumsum_by_group: "length (cumsum_by_group acc es) = length es"
  by (induction acc es rule: cumsum_by_group.induct) (auto simp: fun_upd_def)

lemma cumsum_by_group_nth:
  assumes "n < length es" and "es ! n = (g, c, km)"
  shows "cumsum_by_group acc es ! n = (g, c, km, acc g + gsum (take (Suc n) es) g)"
proof -
  have es: "es = take n es @ (g, c, km) # drop (Suc n) es"
    using assms id_take_nth_drop by metis
  have "cumsum_by_group acc es ! n
      = (cumsum_by_group acc (take n es) @
          cumsum_by_group (\<lambda>h. acc h + gsum (take n es) h) ((g, c, km) # drop (Suc n) es)) ! n"
    using es cumsum_by_group_append by metis
  also have "\<dots> = (g, c, km, acc g + gsum (take n es) g + km)"
    using assms(1) by (simp add: nth_append length_cumsum_by_group)
  finally have 1: "cumsum_by_group acc es ! n = (g, c, km, acc g + gsum (take n es) g + km)" .
  have "gsum (take n es) g + km = gsum (take (Suc n) es) g"
    using assms by (simp add: take_Suc_conv_app_nth gsum_def)
  with 1 show ?thesis by (simp add: add.assoc)
qed

lemma strict_sorted_take_filter:
  fixes k :: "'a \<Rightarrow> 'k::linorder"
  assumes "sorted_wrt (<) (map k es)" and "n < length es"
  shows "take (Suc n) es = filter (\<lambda>e. k e \<le> k (es ! n)) es"
proof -
  have lt: "\<And>i j. i < j \<Longrightarrow> j < length es \<Longrightarrow> k (es ! i) < k (es ! j)"
    using assms(1) by (auto simp: sorted_wrt_iff_nth_less)
  have a: "filter (\<lambda>e. k e \<le> k (es ! n)) (take (Suc n) es) = take (Suc n) es"
  proof (rule filter_True, clarify)
    fix e assume "e \<in> set (take (Suc n) es)"
    then obtain i where "i < Suc n" "i < length es" "e = es ! i"
      by (auto simp: in_set_conv_nth)
    then show "k e \<le> k (es ! n)"
      using lt [of i n] assms(2) by (cases "i = n") auto
  qed
  have b: "filter (\<lambda>e. k e \<le> k (es ! n)) (drop (Suc n) es) = []"
  proof (rule filter_False, clarify)
    fix e assume "e \<in> set (drop (Suc n) es)" and le: "k e \<le> k (es ! n)"
    then obtain i where "i < length es - Suc n" "e = es ! (Suc n + i)"
      unfolding in_set_conv_nth by auto
    moreover from this have "Suc n + i < length es" by arith
    ultimately show False using lt [of n "Suc n + i"] le by auto
  qed
  have "filter (\<lambda>e. k e \<le> k (es ! n)) es
      = filter (\<lambda>e. k e \<le> k (es ! n)) (take (Suc n) es @ drop (Suc n) es)"
    by simp
  also have "\<dots> = take (Suc n) es" unfolding filter_append a b by simp
  finally show ?thesis by simp
qed


lemma CHALLENGE_KWS_STR_eval:
  "CHALLENGE_KWS_STR =
     [''45'', ''46'', ''47'', ''48'', ''49'', ''50'', ''51'', ''52'']
       @ map (\<lambda>d. [d]) ''123456789'' @ [''10'']"
  by (simp add: CHALLENGE_KWS_STR_def CHALLENGE_KWS_def str_int_def str_nat.simps digit_char_def)

lemma distinct_CHALLENGE_KWS_STR: "distinct CHALLENGE_KWS_STR"
  by (simp add: CHALLENGE_KWS_STR_eval)

lemma length_CHALLENGE_KWS_STR: "length CHALLENGE_KWS_STR = 18"
  by (simp add: CHALLENGE_KWS_STR_eval)

lemma index_of_less: "x \<in> set xs \<Longrightarrow> index_of x xs < length xs"
  by (induction xs) auto

lemma nth_index_of: "x \<in> set xs \<Longrightarrow> xs ! index_of x xs = x"
  by (induction xs) auto

lemma index_of_nth: "distinct xs \<Longrightarrow> i < length xs \<Longrightarrow> index_of (xs ! i) xs = i"
  by (induction xs arbitrary: i) (auto simp: nth_Cons split: nat.splits)

lemma in_take_index_of: "x \<in> set xs \<Longrightarrow> x \<in> set (take (Suc c) xs) \<longleftrightarrow> index_of x xs \<le> c"
proof (induction xs arbitrary: c)
  case Nil
  then show ?case by simp
next
  case (Cons y ys)
  show ?case
  proof (cases "x = y")
    case True
    then show ?thesis by simp
  next
    case False
    with Cons.prems have x: "x \<in> set ys" by simp
    show ?thesis
    proof (cases c)
      case 0
      with False show ?thesis by simp
    next
      case (Suc d)
      with False Cons.IH [OF x, of d] show ?thesis by simp
    qed
  qed
qed

lemma in_take_iff: "x \<in> set (take (Suc c) xs) \<longleftrightarrow> x \<in> set xs \<and> index_of x xs \<le> c"
  using in_take_index_of [of x xs c] by (auto dest: in_set_takeD)

lemma group_weekly_sums_eq:
  "group_weekly_sums rs =
     map (\<lambda>k. (fst k, snd k, sum_km (filter (\<lambda>r. gw_key r = k) (df_filtered_kws rs))))
       (sort (remdups (map gw_key (df_filtered_kws rs))))"
  by (simp add: group_weekly_sums_def groupby_sum_def case_prod_beta)

lemma group_weekly_sums_keys:
  "map (\<lambda>(g, c, km). (g, c)) (group_weekly_sums rs) = sort (remdups (map gw_key (df_filtered_kws rs)))"
  by (simp add: group_weekly_sums_eq comp_def)

lemma group_weekly_sums_strict:
  "sorted_wrt (<) (map (\<lambda>(g, c, km). (g, c)) (group_weekly_sums rs))"
  by (simp add: group_weekly_sums_keys strict_sorted_iff)

lemma group_weekly_sums_sort_id:
  "sort_key (\<lambda>(g, c, km). (g, c)) (group_weekly_sums rs) = group_weekly_sums rs"
  by (rule sort_key_id_if_sorted) (simp add: group_weekly_sums_keys)

lemma group_weekly_sums_mem:
  "(g, c, km) \<in> set (group_weekly_sums rs) \<longleftrightarrow>
     (g, c) \<in> gw_key ` set (df_filtered_kws rs) \<and>
     km = sum_km (filter (\<lambda>r. gw_key r = (g, c)) (df_filtered_kws rs))"
proof -
  let ?F = "\<lambda>k. (fst k, snd k, sum_km (filter (\<lambda>r. gw_key r = k) (df_filtered_kws rs)))"
  have s: "set (group_weekly_sums rs) = ?F ` (gw_key ` set (df_filtered_kws rs))"
    by (simp add: group_weekly_sums_eq)
  show ?thesis
  proof
    assume "(g, c, km) \<in> set (group_weekly_sums rs)"
    then obtain k where "k \<in> gw_key ` set (df_filtered_kws rs)" "(g, c, km) = ?F k"
      unfolding s by blast
    then show "(g, c) \<in> gw_key ` set (df_filtered_kws rs) \<and>
       km = sum_km (filter (\<lambda>r. gw_key r = (g, c)) (df_filtered_kws rs))"
      by (cases k) simp
  next
    assume r: "(g, c) \<in> gw_key ` set (df_filtered_kws rs) \<and>
       km = sum_km (filter (\<lambda>r. gw_key r = (g, c)) (df_filtered_kws rs))"
    then have "(g, c, km) = ?F (g, c)" by simp
    with r show "(g, c, km) \<in> set (group_weekly_sums rs)"
      unfolding s by (intro image_eqI [where x = "(g, c)"]) simp_all
  qed
qed

lemma group_weekly_sums_code_less:
  assumes "(g, c, km) \<in> set (group_weekly_sums rs)"
  shows "c < length CHALLENGE_KWS_STR"
proof -
  from assms obtain r where "r \<in> set (df_filtered_kws rs)" "kw_code (KW_STR r) = c"
    by (auto simp: group_weekly_sums_mem)
  then show ?thesis
    by (auto simp: df_filtered_kws_def kw_code_def index_of_less)
qed

lemma group_weekly_sums_filter_sum:
  "sum_list (map (\<lambda>(g, c, km). km) (filter (\<lambda>(g, c, km). P (g, c)) (group_weekly_sums rs)))
     = sum_km (filter (\<lambda>r. P (gw_key r)) (df_filtered_kws rs))"
proof -
  let ?frs = "df_filtered_kws rs"
  let ?K = "sort (remdups (map gw_key ?frs))"
  have "filter (\<lambda>(g, c, km). P (g, c)) (group_weekly_sums rs)
      = map (\<lambda>k. (fst k, snd k, sum_km (filter (\<lambda>r. gw_key r = k) ?frs))) (filter P ?K)"
    by (simp add: group_weekly_sums_eq filter_map comp_def)
  then have "sum_list (map (\<lambda>(g, c, km). km) (filter (\<lambda>(g, c, km). P (g, c)) (group_weekly_sums rs)))
      = sum_list (map (\<lambda>k. sum_km (filter (\<lambda>r. gw_key r = k) ?frs)) (filter P ?K))"
    by (simp add: comp_def)
  also have "\<dots> = sum_km (filter (\<lambda>r. gw_key r \<in> set (filter P ?K)) ?frs)"
    by (rule sum_km_filter_keys) simp
  also have "filter (\<lambda>r. gw_key r \<in> set (filter P ?K)) ?frs = filter (\<lambda>r. P (gw_key r)) ?frs"
    by (rule filter_cong) auto
  finally show ?thesis .
qed

lemma length_group_weekly_of: "length (group_weekly_of rs) = length (group_weekly_sums rs)"
  by (simp add: group_weekly_of_def length_cumsum_by_group)

lemma group_weekly_of_nth:
  assumes n: "n < length (group_weekly_sums rs)" and e: "group_weekly_sums rs ! n = (g, c, km)"
  shows "group_weekly_of rs ! n =
     (g, CHALLENGE_KWS_STR ! c, km,
      sum_km (filter (\<lambda>r. Gruppe r = g \<and> kw_code (KW_STR r) \<le> c) (df_filtered_kws rs)))"
proof -
  let ?S = "group_weekly_sums rs"
  have "take (Suc n) ?S = filter (\<lambda>e. (\<lambda>(g, c, km). (g, c)) e \<le> (\<lambda>(g, c, km). (g, c)) (?S ! n)) ?S"
    using group_weekly_sums_strict n by (rule strict_sorted_take_filter)
  then have t: "take (Suc n) ?S = filter (\<lambda>e. (fst e, fst (snd e)) \<le> (g, c)) ?S"
    by (simp only: e case_prod_beta fst_conv snd_conv)
  have "gsum (take (Suc n) ?S) g
      = sum_list (map (\<lambda>(g', c', km'). km') (filter (\<lambda>(g', c', km'). g' = g \<and> c' \<le> c) ?S))"
    unfolding gsum_def t filter_filter
    by (rule arg_cong [where f = "\<lambda>xs. sum_list (map _ xs)"], rule filter_cong) (auto simp: less_eq_prod_def)
  also have "\<dots> = sum_km (filter (\<lambda>r. Gruppe r = g \<and> kw_code (KW_STR r) \<le> c) (df_filtered_kws rs))"
    using group_weekly_sums_filter_sum [of "\<lambda>(g', c'). g' = g \<and> c' \<le> c" rs] by simp
  finally have "gsum (take (Suc n) ?S) g
      = sum_km (filter (\<lambda>r. Gruppe r = g \<and> kw_code (KW_STR r) \<le> c) (df_filtered_kws rs))" .
  then show ?thesis
    using n e cumsum_by_group_nth [OF n e, of "\<lambda>_. 0"]
    by (simp add: group_weekly_of_def group_weekly_sums_sort_id length_cumsum_by_group)
qed


lemma kw_code_nth: "c < length CHALLENGE_KWS_STR \<Longrightarrow> kw_code (CHALLENGE_KWS_STR ! c) = c"
  by (simp add: kw_code_def index_of_nth distinct_CHALLENGE_KWS_STR)

lemma kw_code_eq_iff:
  "c < length CHALLENGE_KWS_STR \<Longrightarrow>
   (w \<in> set CHALLENGE_KWS_STR \<and> kw_code w = c) \<longleftrightarrow> w = CHALLENGE_KWS_STR ! c"
  by (auto simp: kw_code_nth) (simp add: kw_code_def nth_index_of)

lemma filtered_week_rows:
  assumes "c < length CHALLENGE_KWS_STR"
  shows "filter (\<lambda>r. gw_key r = (g, c)) (df_filtered_kws rs)
       = filter (\<lambda>r. Gruppe r = g \<and> KW_STR r = CHALLENGE_KWS_STR ! c) rs"
  unfolding df_filtered_kws_def filter_filter
  by (rule filter_cong) (use kw_code_eq_iff [OF assms] in auto)

lemma filtered_prefix_rows:
  "filter (\<lambda>r. Gruppe r = g \<and> kw_code (KW_STR r) \<le> c) (df_filtered_kws rs)
     = filter (\<lambda>r. KW_STR r \<in> set (take (Suc c) CHALLENGE_KWS_STR)) (filter (\<lambda>r. Gruppe r = g) rs)"
  unfolding df_filtered_kws_def filter_filter
  by (rule filter_cong) (auto simp: kw_code_def in_take_iff)

lemma prefix_sum_weeks:
  "sum_km (filter (\<lambda>r. Gruppe r = g \<and> kw_code (KW_STR r) \<le> c) (df_filtered_kws rs))
     = sum_list (map (group_week_total rs g) (take (Suc c) CHALLENGE_KWS_STR))"
proof -
  have d: "distinct (take (Suc c) CHALLENGE_KWS_STR)"
    by (simp add: distinct_CHALLENGE_KWS_STR)
  have "group_week_total rs g = (\<lambda>w. sum_km (filter (\<lambda>r. KW_STR r = w) (filter (\<lambda>r. Gruppe r = g) rs)))"
    by (auto simp: group_week_total_def fun_eq_iff conj_commute)
  then show ?thesis
    using sum_km_filter_keys [OF d, of KW_STR "filter (\<lambda>r. Gruppe r = g) rs"]
    by (simp add: filtered_prefix_rows)
qed

lemma group_weekly_of_entry:
  assumes i: "i < length (group_weekly_of rs)" and e: "group_weekly_of rs ! i = (g, w, km, cum)"
  shows "\<exists>c < length CHALLENGE_KWS_STR.
           group_weekly_sums rs ! i = (g, c, km)
         \<and> w = CHALLENGE_KWS_STR ! c
         \<and> km = group_week_total rs g w
         \<and> cum = sum_km (filter (\<lambda>r. Gruppe r = g \<and> kw_code (KW_STR r) \<le> c) (df_filtered_kws rs))"
proof -
  from i have n: "i < length (group_weekly_sums rs)" by (simp add: length_group_weekly_of)
  obtain g0 c km0 where s: "group_weekly_sums rs ! i = (g0, c, km0)"
    by (cases "group_weekly_sums rs ! i")
  from n s have m: "(g0, c, km0) \<in> set (group_weekly_sums rs)" by (metis nth_mem)
  then have c: "c < length CHALLENGE_KWS_STR" by (rule group_weekly_sums_code_less)
  from group_weekly_of_nth [OF n s] e
  have eqs: "g = g0" "w = CHALLENGE_KWS_STR ! c" "km = km0"
    "cum = sum_km (filter (\<lambda>r. Gruppe r = g0 \<and> kw_code (KW_STR r) \<le> c) (df_filtered_kws rs))"
    by simp_all
  from m have "km0 = sum_km (filter (\<lambda>r. gw_key r = (g0, c)) (df_filtered_kws rs))"
    by (simp add: group_weekly_sums_mem)
  then have "km0 = group_week_total rs g0 (CHALLENGE_KWS_STR ! c)"
    by (simp only: filtered_week_rows [OF c] group_week_total_def)
  with c s eqs show ?thesis by auto
qed

lemma group_weekly_of_order:
  assumes i: "i < length (group_weekly_of rs)" and j: "j < i"
    and ei: "group_weekly_of rs ! i = (g, w, km, cum)"
    and ej: "group_weekly_of rs ! j = (g, w', km', cum')"
  shows "kw_code w' < kw_code w"
proof -
  from i j have j': "j < length (group_weekly_of rs)" by simp
  from group_weekly_of_entry [OF i ei] obtain c where
    c: "c < length CHALLENGE_KWS_STR" "group_weekly_sums rs ! i = (g, c, km)" "w = CHALLENGE_KWS_STR ! c"
    by blast
  from group_weekly_of_entry [OF j' ej] obtain c' where
    c': "c' < length CHALLENGE_KWS_STR" "group_weekly_sums rs ! j = (g, c', km')" "w' = CHALLENGE_KWS_STR ! c'"
    by blast
  from i have "i < length (group_weekly_sums rs)" by (simp add: length_group_weekly_of)
  with j group_weekly_sums_strict [of rs]
  have "(\<lambda>(g, c, km). (g, c)) (group_weekly_sums rs ! j) < (\<lambda>(g, c, km). (g, c)) (group_weekly_sums rs ! i)"
    by (simp add: sorted_wrt_iff_nth_less)
  then have "c' < c" by (simp add: c c' less_prod_def)
  then show ?thesis by (simp add: c c' kw_code_nth)
qed


lemma cumsum_by_group_filter_km:
  "map (\<lambda>(g, c, km, cum). km) (filter (\<lambda>(g, c, km, cum). Q g c) (cumsum_by_group acc es))
     = map (\<lambda>(g, c, km). km) (filter (\<lambda>(g, c, km). Q g c) es)"
  by (induction acc es rule: cumsum_by_group.induct) (auto simp: fun_upd_def)

lemma cumsum_by_group_code:
  "(g, c, km, cum) \<in> set (cumsum_by_group acc es) \<Longrightarrow> (g, c, km) \<in> set es"
  by (induction acc es rule: cumsum_by_group.induct) (auto simp: fun_upd_def)

lemma group_weekly_of_week_sum:
  assumes w: "w \<in> set CHALLENGE_KWS_STR"
  shows "sum_list (map (\<lambda>(g, w', km, cum). km) (filter (\<lambda>(g, w', km, cum). w' = w) (group_weekly_of rs)))
       = sum_km (filter (\<lambda>r. KW_STR r = w) rs)"
proof -
  let ?C = "cumsum_by_group (\<lambda>_. 0) (group_weekly_sums rs)"
  have f: "filter ((\<lambda>(g, w', km, cum). w' = w) \<circ> (\<lambda>(g, c, km, cum). (g, CHALLENGE_KWS_STR ! c, km, cum))) ?C
         = filter (\<lambda>(g, c, km, cum). c = kw_code w) ?C"
  proof (rule filter_cong [OF refl])
    fix e assume e: "e \<in> set ?C"
    obtain g c km cum where p: "e = (g, c, km, cum)" by (cases e)
    with e have "(g, c, km) \<in> set (group_weekly_sums rs)" by (auto dest: cumsum_by_group_code)
    then have "c < length CHALLENGE_KWS_STR" by (rule group_weekly_sums_code_less)
    then show "((\<lambda>(g, w', km, cum). w' = w) \<circ> (\<lambda>(g, c, km, cum). (g, CHALLENGE_KWS_STR ! c, km, cum))) e
      = (case e of (g, c, km, cum) \<Rightarrow> c = kw_code w)"
      using kw_code_eq_iff [of c w] w by (auto simp: p)
  qed
  have "map (\<lambda>(g, w', km, cum). km) (filter (\<lambda>(g, w', km, cum). w' = w) (group_weekly_of rs))
      = map (\<lambda>(g, c, km, cum). km) (filter (\<lambda>(g, c, km, cum). c = kw_code w) ?C)"
    unfolding group_weekly_of_def group_weekly_sums_sort_id filter_map f
    by (simp add: comp_def case_prod_beta)
  also have "\<dots> = map (\<lambda>(g, c, km). km) (filter (\<lambda>(g, c, km). c = kw_code w) (group_weekly_sums rs))"
    by (rule cumsum_by_group_filter_km)
  finally have "sum_list (map (\<lambda>(g, w', km, cum). km) (filter (\<lambda>(g, w', km, cum). w' = w) (group_weekly_of rs)))
      = sum_km (filter (\<lambda>r. kw_code (KW_STR r) = kw_code w) (df_filtered_kws rs))"
    using group_weekly_sums_filter_sum [of "\<lambda>(g, c). c = kw_code w" rs] by simp
  also have "filter (\<lambda>r. kw_code (KW_STR r) = kw_code w) (df_filtered_kws rs) = filter (\<lambda>r. KW_STR r = w) rs"
    unfolding df_filtered_kws_def filter_filter
  proof (rule filter_cong [OF refl])
    fix r
    from w have "kw_code w < length CHALLENGE_KWS_STR" by (simp add: kw_code_def index_of_less)
    from kw_code_eq_iff [OF this, of "KW_STR r"] w
    show "(KW_STR r \<in> set CHALLENGE_KWS_STR \<and> kw_code (KW_STR r) = kw_code w) = (KW_STR r = w)"
      by (simp add: kw_code_def nth_index_of)
  qed
  finally show ?thesis .
qed

lemma weekly_summary_lookup:
  "(case map_of (weekly_summary_of rs) w of None \<Rightarrow> 0 | Some v \<Rightarrow> v) = sum_km (filter (\<lambda>r. KW_STR r = w) rs)"
proof (cases "w \<in> KW_STR ` set rs")
  case True
  then show ?thesis by (simp add: weekly_summary_of_def groupby_sum_map_of)
next
  case False
  then have "filter (\<lambda>r. KW_STR r = w) rs = []" by (auto simp: filter_empty_conv)
  with False show ?thesis by (simp add: weekly_summary_of_def groupby_sum_map_of sum_km_Nil)
qed

subsection \<open>The cumulative value follows the canonical week order\<close>

text \<open>
  The group-weekly table has an entry for a group and a week exactly when the week is
  in the Challenge Week Set and the group has a row in that week.
\<close>

lemma group_weekly_of_present:
  "(\<exists>km cum. (g, w, km, cum) \<in> set (group_weekly_of rs)) \<longleftrightarrow>
     w \<in> set CHALLENGE_KWS_STR \<and> (\<exists>r\<in>set rs. Gruppe r = g \<and> KW_STR r = w)"
proof
  assume "\<exists>km cum. (g, w, km, cum) \<in> set (group_weekly_of rs)"
  then obtain km cum i where i: "i < length (group_weekly_of rs)"
    and e: "group_weekly_of rs ! i = (g, w, km, cum)"
    by (auto simp: in_set_conv_nth)
  from group_weekly_of_entry [OF i e] obtain c where
    c: "c < length CHALLENGE_KWS_STR" "group_weekly_sums rs ! i = (g, c, km)" "w = CHALLENGE_KWS_STR ! c"
    by blast
  from i c(2) have "(g, c, km) \<in> set (group_weekly_sums rs)"
    by (metis length_group_weekly_of nth_mem)
  then obtain r where r: "r \<in> set (df_filtered_kws rs)" "Gruppe r = g" "kw_code (KW_STR r) = c"
    by (auto simp: group_weekly_sums_mem)
  then have "KW_STR r \<in> set CHALLENGE_KWS_STR" "r \<in> set rs"
    by (simp_all add: df_filtered_kws_def)
  with r c kw_code_eq_iff [OF c(1), of "KW_STR r"]
  show "w \<in> set CHALLENGE_KWS_STR \<and> (\<exists>r\<in>set rs. Gruppe r = g \<and> KW_STR r = w)"
    by auto
next
  assume a: "w \<in> set CHALLENGE_KWS_STR \<and> (\<exists>r\<in>set rs. Gruppe r = g \<and> KW_STR r = w)"
  then obtain r where r: "r \<in> set rs" "Gruppe r = g" "KW_STR r = w" by blast
  with a have "r \<in> set (df_filtered_kws rs)" by (simp add: df_filtered_kws_def)
  with r have "(g, kw_code w) \<in> gw_key ` set (df_filtered_kws rs)" by force
  then obtain km where "(g, kw_code w, km) \<in> set (group_weekly_sums rs)"
    by (auto simp: group_weekly_sums_mem)
  then obtain l where l: "l < length (group_weekly_sums rs)" "group_weekly_sums rs ! l = (g, kw_code w, km)"
    by (auto simp: in_set_conv_nth)
  from a have "CHALLENGE_KWS_STR ! kw_code w = w" by (simp add: kw_code_def nth_index_of)
  with group_weekly_of_nth [OF l] have "\<exists>cum. group_weekly_of rs ! l = (g, w, km, cum)"
    by simp
  with l(1) show "\<exists>km cum. (g, w, km, cum) \<in> set (group_weekly_of rs)"
    by (metis length_group_weekly_of nth_mem)
qed

text \<open>
  Claim C1. Every entry of the group-weekly table that \<open>transform_data\<close> returns, for
  a group \<open>g\<close> and a week \<open>w\<close>, has a week of the Challenge Week Set, at some position
  \<open>c\<close> of the canonical list (45 to 52, then 1 to 10); its weekly value is the summed
  distance of \<open>g\<close> in \<open>w\<close>, and its cumulative value is the sum of \<open>g\<close>'s weekly sums
  over the weeks at positions up to and including \<open>c\<close> of the canonical list. Earlier
  entries of the same group have earlier canonical positions, so the order is the
  canonical one and neither numeric nor lexical.
\<close>

theorem group_weekly_cumulative_canonical:
  assumes "transform_data raw = (df, weekly_summary, group_weekly)"
    and "i < length group_weekly"
    and "group_weekly ! i = (g, w, km, cum)"
  shows "\<exists>c < length CHALLENGE_KWS_STR.
           w = CHALLENGE_KWS_STR ! c
         \<and> km = group_week_total (rows df) g w
         \<and> cum = sum_list (map (group_week_total (rows df) g) (take (Suc c) CHALLENGE_KWS_STR))
         \<and> (\<forall>j < i. fst (group_weekly ! j) = g \<longrightarrow> kw_code (fst (snd (group_weekly ! j))) < c)"
proof -
  from assms(1,2) have gw: "group_weekly = group_weekly_of (rows df)"
    by (auto simp: transform_data_def Let_def split: if_splits)
  from assms(2,3) have i: "i < length (group_weekly_of (rows df))"
    and e: "group_weekly_of (rows df) ! i = (g, w, km, cum)"
    by (simp_all add: gw)
  from group_weekly_of_entry [OF i e] obtain c where
    c: "c < length CHALLENGE_KWS_STR" "w = CHALLENGE_KWS_STR ! c"
      "km = group_week_total (rows df) g w"
      "cum = sum_km (filter (\<lambda>r. Gruppe r = g \<and> kw_code (KW_STR r) \<le> c) (df_filtered_kws (rows df)))"
    by blast
  have order: "\<forall>j < i. fst (group_weekly ! j) = g \<longrightarrow> kw_code (fst (snd (group_weekly ! j))) < c"
  proof (intro allI impI)
    fix j assume j: "j < i" and gj: "fst (group_weekly ! j) = g"
    obtain w' km' cum' where "group_weekly_of (rows df) ! j = (g, w', km', cum')"
      using gj by (cases "group_weekly ! j") (auto simp: gw)
    from group_weekly_of_order [OF i j e this] this
    show "kw_code (fst (snd (group_weekly ! j))) < c"
      by (simp add: gw c kw_code_nth)
  qed
  from c order show ?thesis
    by (auto simp: prefix_sum_weeks)
qed

theorem group_weekly_cumulative_canonical_witness:
  "snd (snd (transform_data ex_wrap)) =
     [(''X'', ''46'', 5, 5), (''X'', ''1'', 3, 8), (''Y'', ''45'', 2, 2)]
   \<and> (\<exists>c < length CHALLENGE_KWS_STR.
         ''1'' = CHALLENGE_KWS_STR ! c
       \<and> 3 = group_week_total (rows (fst (transform_data ex_wrap))) ''X'' ''1''
       \<and> 8 = sum_list (map (group_week_total (rows (fst (transform_data ex_wrap))) ''X'')
                 (take (Suc c) CHALLENGE_KWS_STR))
       \<and> (\<forall>j < 1. fst (snd (snd (transform_data ex_wrap)) ! j) = ''X'' \<longrightarrow>
             kw_code (fst (snd (snd (snd (transform_data ex_wrap)) ! j))) < c))"
proof -
  have gw: "snd (snd (transform_data ex_wrap)) =
     [(''X'', ''46'', 5, 5), (''X'', ''1'', 3, 8), (''Y'', ''45'', 2, 2)]"
    by code_simp
  have t: "transform_data ex_wrap =
     (fst (transform_data ex_wrap), fst (snd (transform_data ex_wrap)), snd (snd (transform_data ex_wrap)))"
    by simp
  have "1 < length (snd (snd (transform_data ex_wrap)))"
    and "snd (snd (transform_data ex_wrap)) ! 1 = (''X'', ''1'', 3, 8)"
    by (simp_all add: gw)
  from group_weekly_cumulative_canonical [OF t this] gw show ?thesis
    by simp
qed

subsection \<open>Weekly totals against the group-weekly table\<close>

text \<open>
  Claim C2, as stated: the weekly total of every week equals the sum over the groups
  of the group-weekly table's values for that week. It fails for a week outside the
  Challenge Week Set: in \<open>ex_outside\<close> week 30 has the weekly total 3, and the
  group-weekly table, restricted to the challenge weeks by line 98, has no entry for it.
\<close>

theorem weekly_totals_conservation_counterexample:
  "(case map_of (fst (snd (transform_data ex_outside))) ''30'' of None \<Rightarrow> 0 | Some v \<Rightarrow> v) = 3
   \<and> sum_list (map (\<lambda>(g, w', km, cum). km)
        (filter (\<lambda>(g, w', km, cum). w' = ''30'') (snd (snd (transform_data ex_outside))))) = 0"
  by code_simp

text \<open>
  Claim C2, amended: for a table with a group column and every week of the Challenge
  Week Set, the weekly total of the full table (0 when the week has no bucket) equals
  the sum over the groups of the group-weekly table's values for that week. Weeks
  outside the set appear in the weekly totals only.
\<close>

theorem weekly_totals_conservation:
  assumes "transform_data raw = (df, weekly_summary, group_weekly)"
    and "raw_has_KM raw" and "raw_has_Gruppe raw" and "w \<in> set CHALLENGE_KWS_STR"
  shows "(case map_of weekly_summary w of None \<Rightarrow> 0 | Some v \<Rightarrow> v)
       = sum_list (map (\<lambda>(g, w', km, cum). km) (filter (\<lambda>(g, w', km, cum). w' = w) group_weekly))"
proof -
  from assms(1-3) have "weekly_summary = weekly_summary_of (rows df)" "group_weekly = group_weekly_of (rows df)"
    by (auto simp: transform_data_def Let_def)
  then show ?thesis
    by (simp only: weekly_summary_lookup group_weekly_of_week_sum [OF assms(4)])
qed

theorem weekly_totals_conservation_witness:
  "(case map_of (fst (snd (transform_data ex_wrap))) ''46'' of None \<Rightarrow> 0 | Some v \<Rightarrow> v)
     = sum_list (map (\<lambda>(g, w', km, cum). km)
         (filter (\<lambda>(g, w', km, cum). w' = ''46'') (snd (snd (transform_data ex_wrap)))))"
proof -
  have t: "transform_data ex_wrap =
     (fst (transform_data ex_wrap), fst (snd (transform_data ex_wrap)), snd (snd (transform_data ex_wrap)))"
    by simp
  have "raw_has_KM ex_wrap" and "raw_has_Gruppe ex_wrap"
    by (simp_all add: ex_wrap_def)
  moreover have "''46'' \<in> set CHALLENGE_KWS_STR"
    by (simp add: CHALLENGE_KWS_STR_eval)
  ultimately show ?thesis
    by (rule weekly_totals_conservation [OF t])
qed

subsection \<open>The filter engine\<close>

text \<open>
  Claim C8. With the three selections at their sentinels (\<open>Alle\<close>, \<open>Alle\<close>,
  \<open>Gesamt\<close>) the filtered table is the input table, row for row.
\<close>

theorem df_filtered_all_sentinels:
  "df_filtered df ''Alle'' ''Alle'' Gesamt = df"
  by (simp add: df_filtered_def filter_kw_def filter_runner_def filter_group_def
      selected_group_def selected_runner_def)

subsection \<open>Monotonicity and the final cumulative value\<close>

lemma sum_km_filter_mono:
  assumes "\<forall>r\<in>set rs. 0 \<le> km0 r" and "\<forall>r\<in>set rs. P r \<longrightarrow> Q r"
  shows "sum_km (filter P rs) \<le> sum_km (filter Q rs)"
  using assms by (induction rs) (auto simp: sum_km_Cons sum_km_Nil intro: add_increasing)

lemma km0_nonneg: "\<forall>x. KM r = Some x \<longrightarrow> 0 \<le> x \<Longrightarrow> 0 \<le> km0 r"
  by (cases "KM r") (auto simp: km0_def)

lemma group_weekly_of_fst:
  assumes "l < length (group_weekly_sums rs)"
  shows "fst (group_weekly_of rs ! l) = fst (group_weekly_sums rs ! l)"
proof -
  obtain g c km where s: "group_weekly_sums rs ! l = (g, c, km)"
    by (cases "group_weekly_sums rs ! l")
  from group_weekly_of_nth [OF assms s] s show ?thesis by simp
qed

lemma group_weekly_of_final:
  assumes j: "j < length (group_weekly_of rs)" and e: "group_weekly_of rs ! j = (g, w, km, cum)"
    and last: "\<forall>l. j < l \<and> l < length (group_weekly_of rs) \<longrightarrow> fst (group_weekly_of rs ! l) \<noteq> g"
  shows "cum = sum_km (filter (\<lambda>r. Gruppe r = g \<and> KW_STR r \<in> set CHALLENGE_KWS_STR) rs)"
proof -
  let ?S = "group_weekly_sums rs"
  from group_weekly_of_entry [OF j e] obtain c where
    c: "?S ! j = (g, c, km)"
    and cum: "cum = sum_km (filter (\<lambda>r. Gruppe r = g \<and> kw_code (KW_STR r) \<le> c) (df_filtered_kws rs))"
    by blast
  from j have j': "j < length ?S" by (simp add: length_group_weekly_of)
  have "filter (\<lambda>r. Gruppe r = g \<and> kw_code (KW_STR r) \<le> c) (df_filtered_kws rs)
      = filter (\<lambda>r. Gruppe r = g) (df_filtered_kws rs)"
  proof (rule filter_cong [OF refl])
    fix r assume r: "r \<in> set (df_filtered_kws rs)"
    show "(Gruppe r = g \<and> kw_code (KW_STR r) \<le> c) = (Gruppe r = g)"
    proof (cases "Gruppe r = g")
      case False
      then show ?thesis by simp
    next
      case True
      let ?c = "kw_code (KW_STR r)"
      from r True have "(g, ?c) \<in> gw_key ` set (df_filtered_kws rs)" by force
      then have "(g, ?c, sum_km (filter (\<lambda>r'. gw_key r' = (g, ?c)) (df_filtered_kws rs))) \<in> set ?S"
        by (simp add: group_weekly_sums_mem)
      then obtain l where l: "l < length ?S" "?S ! l = (g, ?c, sum_km (filter (\<lambda>r'. gw_key r' = (g, ?c)) (df_filtered_kws rs)))"
        by (auto simp: in_set_conv_nth)
      then have "fst (group_weekly_of rs ! l) = g" by (simp add: group_weekly_of_fst)
      with last l(1) have "l \<le> j" by (auto simp: length_group_weekly_of not_less [symmetric])
      have "?c \<le> c"
      proof (cases "l = j")
        case True
        with l c show ?thesis by simp
      next
        case False
        with \<open>l \<le> j\<close> have "l < j" by simp
        with j' group_weekly_sums_strict [of rs]
        have "(\<lambda>(g, c, km). (g, c)) (?S ! l) < (\<lambda>(g, c, km). (g, c)) (?S ! j)"
          by (simp add: sorted_wrt_iff_nth_less)
        then show ?thesis by (simp add: l c less_prod_def)
      qed
      with True show ?thesis by simp
    qed
  qed
  then show ?thesis
    by (simp add: cum df_filtered_kws_def conj_commute)
qed

lemma group_weekly_of_mono:
  assumes nonneg: "\<forall>r\<in>set rs. \<forall>x. KM r = Some x \<longrightarrow> 0 \<le> x"
    and j: "j < length (group_weekly_of rs)" and i: "i < j"
    and ej: "group_weekly_of rs ! j = (g, w, km, cum)"
    and ei: "group_weekly_of rs ! i = (g, w', km', cum')"
  shows "cum' \<le> cum"
proof -
  from i j have i': "i < length (group_weekly_of rs)" by simp
  from group_weekly_of_entry [OF j ej] obtain c where
    c: "c < length CHALLENGE_KWS_STR" "w = CHALLENGE_KWS_STR ! c"
    and cum: "cum = sum_km (filter (\<lambda>r. Gruppe r = g \<and> kw_code (KW_STR r) \<le> c) (df_filtered_kws rs))"
    by blast
  from group_weekly_of_entry [OF i' ei] obtain c' where
    c': "c' < length CHALLENGE_KWS_STR" "w' = CHALLENGE_KWS_STR ! c'"
    and cum': "cum' = sum_km (filter (\<lambda>r. Gruppe r = g \<and> kw_code (KW_STR r) \<le> c') (df_filtered_kws rs))"
    by blast
  from group_weekly_of_order [OF j i ej ei] have "c' < c"
    by (simp add: c c' kw_code_nth)
  have "\<forall>r\<in>set (df_filtered_kws rs). 0 \<le> km0 r"
    using nonneg by (auto simp: df_filtered_kws_def intro: km0_nonneg)
  then show ?thesis
    unfolding cum cum' using \<open>c' < c\<close> by (intro sum_km_filter_mono) auto
qed

lemma map_of_sort_desc:
  "distinct (map fst xs) \<Longrightarrow> map_of (sort_desc xs) = map_of xs"
  by (rule map_of_inject_set [THEN iffD2]) (simp_all add: sort_desc_def distinct_map)

lemma map_of_reindex_fill0:
  "map_of (reindex_fill0 ks xs) k = (if k \<in> set ks then Some (case map_of xs k of None \<Rightarrow> 0 | Some v \<Rightarrow> v) else None)"
  by (induction ks) (auto simp: reindex_fill0_def)

lemma group_bar_data_Gesamt:
  assumes "g \<in> Gruppe ` set (rows df)"
  shows "map_of (group_bar_data df Gesamt) g = Some (sum_km (filter (\<lambda>r. Gruppe r = g) (rows df)))"
proof -
  from assms have ne: "rows df \<noteq> []" by auto
  have d: "distinct (map fst (reindex_fill0 (all_groups df) (groupby_sum Gruppe (rows df))))"
    by (simp add: reindex_fill0_def comp_def all_groups_def)
  from ne have "map_of (group_bar_data df Gesamt) g
      = map_of (reindex_fill0 (all_groups df) (groupby_sum Gruppe (rows df))) g"
    by (simp add: group_bar_data_def filter_kw_def map_of_sort_desc [OF d])
  also have "\<dots> = Some (sum_km (filter (\<lambda>r. Gruppe r = g) (rows df)))"
    using assms by (simp add: map_of_reindex_fill0 all_groups_def groupby_sum_map_of)
  finally show ?thesis .
qed

text \<open>
  Claim C4, as stated: the final cumulative value of a group equals the group's entry
  in the group totals of the comparison chart. It fails when the group has a row
  outside the Challenge Week Set: in \<open>ex_outside\<close> group X ends at 5 in the
  group-weekly table, and its total over the whole table is 8.
\<close>

theorem cumulative_final_counterexample:
  "snd (snd (transform_data ex_outside)) = [(''X'', ''45'', 5, 5)]
   \<and> map_of (group_bar_data (fst (transform_data ex_outside)) Gesamt) ''X'' = Some 8
   \<and> map_of (group_bar_data (fst (transform_data ex_outside)) Gesamt) ''X''
       \<noteq> Some (snd (snd (snd (last (snd (snd (transform_data ex_outside)))))))"
  by code_simp

text \<open>
  Claim C4, amended: with non-negative distances, the cumulative value of a group does
  not decrease along the group-weekly table (which is in canonical week order), and
  the value at the group's last entry equals the group's total distance over the
  rows whose week is in the Challenge Week Set; it equals the group's entry in the
  group totals (\<open>group_bar_data\<close> with \<open>Gesamt\<close>) when all rows of the group have
  a week of the Challenge Week Set.
\<close>

theorem cumulative_monotone_final:
  assumes "transform_data raw = (df, weekly_summary, group_weekly)"
    and "\<forall>r\<in>set (rows df). \<forall>x. KM r = Some x \<longrightarrow> 0 \<le> x"
    and "j < length group_weekly"
    and "group_weekly ! j = (g, w, km, cum)"
  shows "(\<forall>i < j. \<forall>w' km' cum'. group_weekly ! i = (g, w', km', cum') \<longrightarrow> cum' \<le> cum)
       \<and> ((\<forall>l. j < l \<and> l < length group_weekly \<longrightarrow> fst (group_weekly ! l) \<noteq> g) \<longrightarrow>
             cum = sum_km (filter (\<lambda>r. Gruppe r = g \<and> KW_STR r \<in> set CHALLENGE_KWS_STR) (rows df))
           \<and> ((\<forall>r\<in>set (rows df). Gruppe r = g \<longrightarrow> KW_STR r \<in> set CHALLENGE_KWS_STR) \<longrightarrow>
                 map_of (group_bar_data df Gesamt) g = Some cum))"
proof -
  from assms(1,3) have gw: "group_weekly = group_weekly_of (rows df)"
    by (auto simp: transform_data_def Let_def split: if_splits)
  from assms(3,4) have j: "j < length (group_weekly_of (rows df))"
    and e: "group_weekly_of (rows df) ! j = (g, w, km, cum)"
    by (simp_all add: gw)
  have mono: "\<forall>i < j. \<forall>w' km' cum'. group_weekly ! i = (g, w', km', cum') \<longrightarrow> cum' \<le> cum"
    using group_weekly_of_mono [OF assms(2) j _ e] by (auto simp: gw)
  have final: "cum = sum_km (filter (\<lambda>r. Gruppe r = g \<and> KW_STR r \<in> set CHALLENGE_KWS_STR) (rows df))"
    if "\<forall>l. j < l \<and> l < length group_weekly \<longrightarrow> fst (group_weekly ! l) \<noteq> g"
    using group_weekly_of_final [OF j e] that by (simp add: gw)
  have bar: "map_of (group_bar_data df Gesamt) g = Some cum"
    if l: "\<forall>l. j < l \<and> l < length group_weekly \<longrightarrow> fst (group_weekly ! l) \<noteq> g"
      and a: "\<forall>r\<in>set (rows df). Gruppe r = g \<longrightarrow> KW_STR r \<in> set CHALLENGE_KWS_STR"
  proof -
    from group_weekly_of_entry [OF j e] obtain c where "group_weekly_sums (rows df) ! j = (g, c, km)"
      by blast
    with j have "(g, c, km) \<in> set (group_weekly_sums (rows df))"
      by (metis length_group_weekly_of nth_mem)
    then have "g \<in> Gruppe ` set (rows df)"
      by (auto simp: group_weekly_sums_mem df_filtered_kws_def)
    then have "map_of (group_bar_data df Gesamt) g = Some (sum_km (filter (\<lambda>r. Gruppe r = g) (rows df)))"
      by (rule group_bar_data_Gesamt)
    moreover have "filter (\<lambda>r. Gruppe r = g) (rows df)
        = filter (\<lambda>r. Gruppe r = g \<and> KW_STR r \<in> set CHALLENGE_KWS_STR) (rows df)"
      by (rule filter_cong) (use a in auto)
    ultimately show ?thesis using final [OF l] by simp
  qed
  from mono final bar show ?thesis by blast
qed

theorem cumulative_monotone_final_witness:
  "snd (snd (transform_data ex_wrap)) ! 0 = (''X'', ''46'', 5, 5)
   \<and> snd (snd (transform_data ex_wrap)) ! 1 = (''X'', ''1'', 3, 8)
   \<and> (5::real) \<le> 8
   \<and> 8 = sum_km (filter (\<lambda>r. Gruppe r = ''X'' \<and> KW_STR r \<in> set CHALLENGE_KWS_STR)
            (rows (fst (transform_data ex_wrap))))
   \<and> map_of (group_bar_data (fst (transform_data ex_wrap)) Gesamt) ''X'' = Some 8"
proof -
  have gw: "snd (snd (transform_data ex_wrap)) =
     [(''X'', ''46'', 5, 5), (''X'', ''1'', 3, 8), (''Y'', ''45'', 2, 2)]"
    by code_simp
  have t: "transform_data ex_wrap =
     (fst (transform_data ex_wrap), fst (snd (transform_data ex_wrap)), snd (snd (transform_data ex_wrap)))"
    by simp
  have nonneg: "\<forall>r\<in>set (rows (fst (transform_data ex_wrap))). \<forall>x. KM r = Some x \<longrightarrow> 0 \<le> x"
    by (simp add: transform_data_def ex_wrap_def normalize_rows_def add_KW_STR_def Let_def)
  have j: "1 < length (snd (snd (transform_data ex_wrap)))"
    and e: "snd (snd (transform_data ex_wrap)) ! 1 = (''X'', ''1'', 3, 8)"
    by (simp_all add: gw)
  have l: "\<forall>l. 1 < l \<and> l < length (snd (snd (transform_data ex_wrap))) \<longrightarrow>
      fst (snd (snd (transform_data ex_wrap)) ! l) \<noteq> ''X''"
  proof (intro allI impI)
    fix l assume "1 < l \<and> l < length (snd (snd (transform_data ex_wrap)))"
    then have "l = 2" by (simp add: gw)
    then show "fst (snd (snd (transform_data ex_wrap)) ! l) \<noteq> ''X''" by (simp add: gw)
  qed
  have a: "\<forall>r\<in>set (rows (fst (transform_data ex_wrap))). Gruppe r = ''X'' \<longrightarrow> KW_STR r \<in> set CHALLENGE_KWS_STR"
    by (simp add: transform_data_def ex_wrap_def normalize_rows_def add_KW_STR_def Let_def
        kw_is_integer_def kw_astype_str_def str_int_def str_nat.simps digit_char_def CHALLENGE_KWS_STR_eval)
  have z: "snd (snd (transform_data ex_wrap)) ! 0 = (''X'', ''46'', 5, 5)"
    by (simp add: gw)
  note th = cumulative_monotone_final [OF t nonneg j e]
  from th [THEN conjunct1] z have m: "(5::real) \<le> 8"
    by simp
  from th [THEN conjunct2, THEN mp, OF l] a
  have "8 = sum_km (filter (\<lambda>r. Gruppe r = ''X'' \<and> KW_STR r \<in> set CHALLENGE_KWS_STR)
            (rows (fst (transform_data ex_wrap))))
      \<and> map_of (group_bar_data (fst (transform_data ex_wrap)) Gesamt) ''X'' = Some 8"
    by blast
  with z e m show ?thesis
    by simp
qed

subsection \<open>Leaderboards\<close>

lemma series_max_eq:
  "series_max vs = (if vs = [] then None else Some (Max (set vs)))"
proof (cases vs)
  case Nil
  then show ?thesis by (simp add: series_max_def)
next
  case (Cons v ws)
  have "Max (set (v # ws)) = fold max ws v" by (rule Max.set_eq_fold)
  with Cons show ?thesis by (simp add: series_max_def)
qed

lemma sort_desc_sorted: "sorted (map (\<lambda>(k, km). - km) (sort_desc xs))"
  by (simp add: sort_desc_def)

lemma set_sort_desc: "set (sort_desc xs) = set xs"
  by (simp add: sort_desc_def)

lemma length_sort_desc: "length (sort_desc xs) = length xs"
  by (simp add: sort_desc_def)

lemma sort_desc_nth_mono:
  assumes "i \<le> j" and "j < length xs"
  shows "snd (sort_desc xs ! j) \<le> snd (sort_desc xs ! i)"
proof -
  have "map (\<lambda>(k, km). - km) (sort_desc xs) ! i \<le> map (\<lambda>(k, km). - km) (sort_desc xs) ! j"
    using assms by (intro sorted_nth_mono [OF sort_desc_sorted]) (simp_all add: length_sort_desc)
  then show ?thesis using assms by (simp add: length_sort_desc case_prod_beta)
qed

lemma length_groupby_sum: "length (groupby_sum key rs) = card (key ` set rs)"
proof -
  have "length (groupby_sum key rs) = length (remdups (map key rs))"
    by (simp add: groupby_sum_def)
  also have "\<dots> = card (set (map key rs))"
    by (simp add: length_remdups_card_conv)
  finally show ?thesis by simp
qed

lemma set_groupby_sum:
  "set (groupby_sum key rs) = (\<lambda>k. (k, sum_km (filter (\<lambda>r. key r = k) rs))) ` key ` set rs"
  by (simp add: groupby_sum_def)

text \<open>
  Claim C9. For every filtered table, the runner leaderboard holds the first ten
  entries of the runners' totals in descending order (ten entries, or all runners when
  there are fewer), every runner left out has a total no larger than any retained one,
  and the team leaderboard holds every group of the table, in descending order of
  total. The upper end of each progress column is the largest total of the ranking
  that is displayed (for the runners, of the retained ten), and 100 when that ranking
  is empty.
\<close>

theorem leaderboards:
  "length (runner_ranking dff) = min 10 (card (Name ` set (rows dff)))
   \<and> (\<forall>i j. i \<le> j \<and> j < length (runner_ranking dff) \<longrightarrow>
         snd (runner_ranking dff ! j) \<le> snd (runner_ranking dff ! i))
   \<and> (\<forall>e \<in> set (runner_ranking dff).
         fst e \<in> Name ` set (rows dff) \<and> snd e = sum_km (filter (\<lambda>r. Name r = fst e) (rows dff)))
   \<and> (\<forall>n \<in> Name ` set (rows dff). n \<notin> fst ` set (runner_ranking dff) \<longrightarrow>
         (\<forall>e \<in> set (runner_ranking dff). sum_km (filter (\<lambda>r. Name r = n) (rows dff)) \<le> snd e))
   \<and> max_runner_km dff =
         (if runner_ranking dff = [] then 100 else Max (snd ` set (runner_ranking dff)))
   \<and> length (group_ranking dff) = card (Gruppe ` set (rows dff))
   \<and> set (group_ranking dff) =
         (\<lambda>g. (g, sum_km (filter (\<lambda>r. Gruppe r = g) (rows dff)))) ` Gruppe ` set (rows dff)
   \<and> (\<forall>i j. i \<le> j \<and> j < length (group_ranking dff) \<longrightarrow>
         snd (group_ranking dff ! j) \<le> snd (group_ranking dff ! i))
   \<and> max_group_km dff =
         (if group_ranking dff = [] then 100 else Max (snd ` set (group_ranking dff)))"
proof -
  let ?full = "sort_desc (groupby_sum Name (rows dff))"
  have len: "length ?full = card (Name ` set (rows dff))"
    by (simp add: length_sort_desc length_groupby_sum)
  have 1: "length (runner_ranking dff) = min 10 (card (Name ` set (rows dff)))"
    by (simp add: runner_ranking_def len min.commute)
  have 2: "\<forall>i j. i \<le> j \<and> j < length (runner_ranking dff) \<longrightarrow>
         snd (runner_ranking dff ! j) \<le> snd (runner_ranking dff ! i)"
    using sort_desc_nth_mono [of _ _ "groupby_sum Name (rows dff)"]
    by (auto simp: runner_ranking_def length_sort_desc)
  have sub: "set (runner_ranking dff) \<subseteq> set (groupby_sum Name (rows dff))"
    using set_take_subset [of 10 ?full] by (simp add: runner_ranking_def set_sort_desc)
  have 3: "\<forall>e \<in> set (runner_ranking dff).
         fst e \<in> Name ` set (rows dff) \<and> snd e = sum_km (filter (\<lambda>r. Name r = fst e) (rows dff))"
    using sub by (auto simp: set_groupby_sum)
  have 4: "\<forall>n \<in> Name ` set (rows dff). n \<notin> fst ` set (runner_ranking dff) \<longrightarrow>
         (\<forall>e \<in> set (runner_ranking dff). sum_km (filter (\<lambda>r. Name r = n) (rows dff)) \<le> snd e)"
  proof (intro ballI impI)
    fix n e
    assume n: "n \<in> Name ` set (rows dff)" and out: "n \<notin> fst ` set (runner_ranking dff)"
      and e: "e \<in> set (runner_ranking dff)"
    let ?v = "sum_km (filter (\<lambda>r. Name r = n) (rows dff))"
    from n have "(n, ?v) \<in> set ?full"
      by (auto simp: set_sort_desc set_groupby_sum)
    then obtain j where j: "j < length ?full" "?full ! j = (n, ?v)"
      by (auto simp: in_set_conv_nth)
    from e obtain i where i: "i < length (runner_ranking dff)" "runner_ranking dff ! i = e"
      by (auto simp: in_set_conv_nth)
    then have i10: "i < 10" "i < length ?full" "?full ! i = e"
      by (simp_all add: runner_ranking_def)
    have "\<not> j < 10"
    proof
      assume "j < 10"
      with j have "runner_ranking dff ! j = (n, ?v)" "j < length (runner_ranking dff)"
        by (simp_all add: runner_ranking_def)
      then have "(n, ?v) \<in> set (runner_ranking dff)" by (metis nth_mem)
      with out show False by force
    qed
    with i10 have "i \<le> j" by simp
    from sort_desc_nth_mono [OF this, of "groupby_sum Name (rows dff)"] j i10
    show "?v \<le> snd e" by (simp add: length_sort_desc)
  qed
  have 5: "max_runner_km dff =
         (if runner_ranking dff = [] then 100 else Max (snd ` set (runner_ranking dff)))"
    by (simp add: max_runner_km_def series_max_eq)
  have 6: "length (group_ranking dff) = card (Gruppe ` set (rows dff))"
    by (simp add: group_ranking_def length_sort_desc length_groupby_sum)
  have 7: "set (group_ranking dff) =
         (\<lambda>g. (g, sum_km (filter (\<lambda>r. Gruppe r = g) (rows dff)))) ` Gruppe ` set (rows dff)"
    by (simp add: group_ranking_def set_sort_desc set_groupby_sum)
  have 8: "\<forall>i j. i \<le> j \<and> j < length (group_ranking dff) \<longrightarrow>
         snd (group_ranking dff ! j) \<le> snd (group_ranking dff ! i)"
    using sort_desc_nth_mono [of _ _ "groupby_sum Gruppe (rows dff)"]
    by (auto simp: group_ranking_def length_sort_desc)
  have 9: "max_group_km dff =
         (if group_ranking dff = [] then 100 else Max (snd ` set (group_ranking dff)))"
    by (simp add: max_group_km_def series_max_eq)
  from 1 2 3 4 5 6 7 8 9 show ?thesis by blast
qed

theorem leaderboards_witness:
  "length (runner_ranking ex_eleven) = 10
   \<and> length (group_ranking ex_eleven) = 11
   \<and> ''Ra'' \<in> Name ` set (rows ex_eleven)
   \<and> ''Ra'' \<notin> fst ` set (runner_ranking ex_eleven)
   \<and> (''Rb'', 2) \<in> set (runner_ranking ex_eleven)
   \<and> sum_km (filter (\<lambda>r. Name r = ''Ra'') (rows ex_eleven)) \<le> 2
   \<and> max_runner_km ex_eleven = 11
   \<and> max_group_km ex_eleven = 11"
proof -
  have rr: "runner_ranking ex_eleven =
    [(''Rk'', 11), (''Rj'', 10), (''Ri'', 9), (''Rh'', 8), (''Rg'', 7),
     (''Rf'', 6), (''Re'', 5), (''Rd'', 4), (''Rc'', 3), (''Rb'', 2)]"
    by code_simp
  have gr: "group_ranking ex_eleven =
    [(''Gk'', 11), (''Gj'', 10), (''Gi'', 9), (''Gh'', 8), (''Gg'', 7),
     (''Gf'', 6), (''Ge'', 5), (''Gd'', 4), (''Gc'', 3), (''Gb'', 2), (''Ga'', 1)]"
    by code_simp
  have a: "''Ra'' \<in> Name ` set (rows ex_eleven)"
    by (simp add: ex_eleven_def)
  have b: "''Ra'' \<notin> fst ` set (runner_ranking ex_eleven)"
    by (simp add: rr)
  have c: "length (runner_ranking ex_eleven) = 10" "length (group_ranking ex_eleven) = 11"
    by (simp_all add: rr gr)
  have d: "max_runner_km ex_eleven = 11" "max_group_km ex_eleven = 11"
    by (simp_all add: max_runner_km_def max_group_km_def rr gr series_max_def)
  have e: "(''Rb'', 2) \<in> set (runner_ranking ex_eleven)"
    by (simp add: rr)
  note cut = leaderboards [of ex_eleven, THEN conjunct2, THEN conjunct2, THEN conjunct2, THEN conjunct1]
  from cut [THEN bspec, OF a, THEN mp, OF b, THEN bspec, OF e]
  have "sum_km (filter (\<lambda>r. Name r = ''Ra'') (rows ex_eleven)) \<le> 2"
    by simp
  with a b c d e show ?thesis
    by simp
qed

subsection \<open>Selector options\<close>

lemma sort_remdups_map: "sort (remdups (map f xs)) = sorted_list_of_set (f ` set xs)"
  using sorted_list_of_set_sort_remdups [of "map f xs"] by simp

lemma rows_filter_group:
  "rows (filter_group df pick_group) =
     (if has_Gruppe df \<and> pick_group \<noteq> ''Alle''
      then filter (\<lambda>r. Gruppe r = pick_group) (rows df) else rows df)"
  by (simp add: filter_group_def selected_group_def with_rows_def)

text \<open>
  Claim C5, as stated: the week selector offers the distinct week values of the
  group- and runner-filtered table. It fails: the table \<open>ex_nat\<close> holds week 45 only,
  and the week selector still offers all eighteen challenge weeks (line 167).
\<close>

theorem kw_options_counterexample:
  "kw_options \<noteq>
     Gesamt # map Woche (sort (remdups (List.map_filter KW
       (rows (filter_runner (filter_group (fst (transform_data ex_nat)) ''Alle'') ''Alle'')))))"
  by code_simp

text \<open>
  Claim C5, amended: the group selector offers \<open>Alle\<close> followed by the sorted distinct
  groups of the whole table, the runner selector offers \<open>Alle\<close> followed by the
  sorted distinct names of the table after the group filter, and the week selector
  offers \<open>Gesamt\<close> followed by the fixed Challenge Week Set in its canonical order,
  whatever the table holds.
\<close>

theorem selector_options:
  "group_options df = ''Alle'' # sorted_list_of_set (Gruppe ` set (rows df))
   \<and> runner_options df pick_group =
       ''Alle'' # sorted_list_of_set (Name ` set (rows (filter_group df pick_group)))
   \<and> rows (filter_group df pick_group) =
       (if has_Gruppe df \<and> pick_group \<noteq> ''Alle''
        then filter (\<lambda>r. Gruppe r = pick_group) (rows df) else rows df)
   \<and> kw_options = Gesamt # map Woche CHALLENGE_KWS"
  by (simp only: group_options_def runner_options_def kw_options_def sort_remdups_map
      rows_filter_group simp_thms)

theorem selector_options_witness:
  "group_options (fst (transform_data ex_wrap)) = [''Alle'', ''X'', ''Y'']
   \<and> runner_options (fst (transform_data ex_wrap)) ''X'' = [''Alle'', ''A'', ''B'']
   \<and> length kw_options = 19"
proof -
  have "sorted_list_of_set (Gruppe ` set (rows (fst (transform_data ex_wrap)))) = [''X'', ''Y'']"
    and "sorted_list_of_set (Name ` set (rows (filter_group (fst (transform_data ex_wrap)) ''X'')))
      = [''A'', ''B'']"
    by code_simp+
  note s = this
  note th = selector_options [of "fst (transform_data ex_wrap)" "''X''"]
  from th [THEN conjunct1] s(1)
  have 1: "group_options (fst (transform_data ex_wrap)) = [''Alle'', ''X'', ''Y'']"
    by simp
  from th [THEN conjunct2, THEN conjunct1] s(2)
  have 2: "runner_options (fst (transform_data ex_wrap)) ''X'' = [''Alle'', ''A'', ''B'']"
    by simp
  have "length (Gesamt # map Woche CHALLENGE_KWS) = 19"
    by (simp add: CHALLENGE_KWS_def)
  with th [THEN conjunct2, THEN conjunct2, THEN conjunct2]
  have 3: "length kw_options = 19"
    by (simp only:)
  from 1 2 3 show ?thesis
    by (intro conjI)
qed

subsection \<open>Records\<close>

lemma runner_runs_tally:
  "(n, c) \<in> set (runner_runs df) \<longleftrightarrow>
     n \<in> Name ` set (rows df) \<and> c = length (filter (\<lambda>r. Name r = n \<and> KM r \<noteq> None) (rows df))"
  by (auto simp: runner_runs_def)

lemma runners_with_max_runs_ties:
  "n \<in> set (runners_with_max_runs df) \<longleftrightarrow>
     n \<in> Name ` set (rows df) \<and>
     (\<forall>m \<in> Name ` set (rows df).
        length (filter (\<lambda>r. Name r = m \<and> KM r \<noteq> None) (rows df))
          \<le> length (filter (\<lambda>r. Name r = n \<and> KM r \<noteq> None) (rows df)))"
proof -
  let ?t = "\<lambda>m. length (filter (\<lambda>r. Name r = m \<and> KM r \<noteq> None) (rows df))"
  let ?N = "Name ` set (rows df)"
  have s: "set (map snd (runner_runs df)) = ?t ` ?N"
    by (auto simp: runner_runs_def image_iff)
  show ?thesis
  proof (cases "rows df = []")
    case True
    then show ?thesis by (simp add: runners_with_max_runs_def runner_runs_def)
  next
    case False
    have "set (map fst (runner_runs df)) = ?N" by (simp add: runner_runs_def comp_def)
    with False have ne: "map snd (runner_runs df) \<noteq> []" by (cases "runner_runs df") auto
    then have m: "most_runs df = Some (Max (?t ` ?N))"
      by (simp add: most_runs_def series_max_eq s del: set_map)
    have fin: "finite (?t ` ?N)" and ne': "?t ` ?N \<noteq> {}" using False by auto
    have "n \<in> set (runners_with_max_runs df) \<longleftrightarrow>
        (\<exists>c. (n, c) \<in> set (runner_runs df) \<and> Some c = most_runs df)"
      by (force simp: runners_with_max_runs_def)
    also have "\<dots> \<longleftrightarrow> n \<in> ?N \<and> ?t n = Max (?t ` ?N)"
      unfolding runner_runs_tally m by auto
    also have "\<dots> \<longleftrightarrow> n \<in> ?N \<and> (\<forall>m \<in> ?N. ?t m \<le> ?t n)"
    proof (cases "n \<in> ?N")
      case True
      then have "?t n \<in> ?t ` ?N" by blast
      then have "?t n = Max (?t ` ?N) \<longleftrightarrow> (\<forall>x \<in> ?t ` ?N. x \<le> ?t n)"
        using Max_eq_iff [OF fin ne', of "?t n"] by auto
      then show ?thesis by auto
    qed simp
    finally show ?thesis .
  qed
qed

text \<open>
  Claim C3 at the table \<open>ex_runs\<close>: runner A has two rows, one of them with a
  distance that does not parse. \<open>runner_runs\<close> counts one run for A, where the claim
  counts two; the number of runs in the progress box counts all four rows.
\<close>

theorem runner_runs_skips_missing_km:
  "length (filter (\<lambda>r. Name r = ''A'') (rows (fst (transform_data ex_runs)))) = 2
   \<and> runner_runs (fst (transform_data ex_runs)) = [(''A'', 1), (''B'', 2)]
   \<and> anzahl_laeufe_total (fst (transform_data ex_runs)) = 4"
  by code_simp

text \<open>
  Claim C7 at the table \<open>ex_runs\<close>: the runners A and B have two rows each, the
  largest count is 2, and only B is listed. Over the counts that \<open>runner_runs\<close>
  computes, every runner with the largest count is listed
  (\<open>runners_with_max_runs_ties\<close>).
\<close>

theorem runners_with_max_runs_drops_tied_runner:
  "length (filter (\<lambda>r. Name r = ''A'') (rows (fst (transform_data ex_runs)))) = 2
   \<and> length (filter (\<lambda>r. Name r = ''B'') (rows (fst (transform_data ex_runs)))) = 2
   \<and> most_runs (fst (transform_data ex_runs)) = Some 2
   \<and> runners_with_max_runs (fst (transform_data ex_runs)) = [''B'']
   \<and> runners_list (fst (transform_data ex_runs)) = ''B''"
  by code_simp

text \<open>
  Claim C6 at the table \<open>ex_nat\<close>: the total distance is 5, so the dashboard does
  not stop with the notice; the row with the longest distance has no date, and the
  records section raises ValueError when it formats the date (line 242).
\<close>

theorem records_unparseable_date_raises:
  "\<not> no_data (fst (transform_data ex_nat))
   \<and> sum_km (rows (fst (transform_data ex_nat))) = 5
   \<and> longest_run (fst (transform_data ex_nat)) = Inl ValueError
   \<and> records (fst (transform_data ex_nat)) = Inl ValueError"
  by code_simp

subsection \<open>Weeks that do not parse\<close>

lemma digit_char_digit: "n < 10 \<Longrightarrow> digit_char n \<in> set ''0123456789''"
  unfolding digit_char_def by (rule nth_mem) simp

lemma str_nat_digits: "set (str_nat n) \<subseteq> set ''0123456789''"
proof (induction n rule: str_nat.induct)
  case (1 n)
  show ?case
  proof (cases "n < 10")
    case True
    then show ?thesis using digit_char_digit [of n] by (simp add: str_nat.simps [of n])
  next
    case False
    have "n mod 10 < 10" by simp
    with False 1 digit_char_digit [of "n mod 10"] show ?thesis
      by (simp add: str_nat.simps [of n])
  qed
qed

lemma str_int_no_n: "CHR ''n'' \<notin> set (str_int k)"
proof -
  have d: "CHR ''n'' \<notin> set ''0123456789''" by simp
  have "CHR ''n'' \<notin> set (str_nat m)" for m
    using str_nat_digits [of m] d by blast
  then show ?thesis by (simp add: str_int_def)
qed

lemma kw_astype_str_nan: "kw_astype_str b v = ''nan'' \<longleftrightarrow> v = None"
proof (cases v)
  case None
  then show ?thesis by (simp add: kw_astype_str_def)
next
  case (Some k)
  have "str_int k \<noteq> ''nan''"
  proof
    assume "str_int k = ''nan''"
    then have "CHR ''n'' \<in> set (str_int k)" by simp
    with str_int_no_n [of k] show False by simp
  qed
  moreover have "str_int k @ ''.0'' \<noteq> ''nan''"
  proof
    assume eq: "str_int k @ ''.0'' = ''nan''"
    have "CHR ''n'' \<in> set ''nan''" by simp
    then have "CHR ''n'' \<in> set (str_int k @ ''.0'')" by (simp only: eq)
    then have "CHR ''n'' \<in> set (str_int k)" by simp
    with str_int_no_n [of k] show False by simp
  qed
  ultimately have "str_int k \<noteq> ''nan''" "str_int k @ ''.0'' \<noteq> ''nan''"
    by simp_all
  with Some show ?thesis by (simp add: kw_astype_str_def)
qed

lemma nan_not_challenge_week: "''nan'' \<notin> set CHALLENGE_KWS_STR"
  by (simp add: CHALLENGE_KWS_STR_eval)

lemma normalize_rows_KW_STR:
  "r \<in> set (normalize_rows rs) \<Longrightarrow> KW_STR r = ''nan'' \<longleftrightarrow> KW r = None"
  by (auto simp: normalize_rows_def add_KW_STR_def kw_astype_str_nan)

text \<open>
  Claim C10. Normalization keeps every row with its distance and its week; a row of the
  normalized table has the week string \<open>nan\<close> exactly when its week did not parse.
  When there is such a row, the weekly summary of the full table has a bucket \<open>nan\<close>
  holding the summed distance of these rows. \<open>nan\<close> is not in the Challenge Week Set, so
  no such row passes the filter of line 98 and the group-weekly table has no entry for
  the week \<open>nan\<close>.
\<close>

theorem unparseable_week_nan_bucket:
  assumes "transform_data raw = (df, weekly_summary, group_weekly)" and "raw_has_KM raw"
  shows "map KW (rows df) = map KW (raw_rows raw)
       \<and> map KM (rows df) = map KM (raw_rows raw)
       \<and> (\<forall>r\<in>set (rows df). KW r = None \<longleftrightarrow> KW_STR r = ''nan'')
       \<and> ((\<exists>r\<in>set (rows df). KW r = None) \<longrightarrow>
            map_of weekly_summary ''nan'' = Some (sum_km (filter (\<lambda>r. KW r = None) (rows df))))
       \<and> ''nan'' \<notin> set CHALLENGE_KWS_STR
       \<and> (\<forall>r\<in>set (df_filtered_kws (rows df)). KW r \<noteq> None)
       \<and> (\<forall>e\<in>set group_weekly. fst (snd e) \<noteq> ''nan'')"
proof -
  from assms have df: "rows df = normalize_rows (raw_rows raw)"
    and ws: "weekly_summary = weekly_summary_of (rows df)"
    and gw: "group_weekly = (if has_Gruppe df then group_weekly_of (rows df) else [])"
    by (auto simp: transform_data_def Let_def)
  have 1: "map KW (rows df) = map KW (raw_rows raw)" "map KM (rows df) = map KM (raw_rows raw)"
    by (simp_all add: df normalize_rows_def add_KW_STR_def comp_def)
  have 2: "\<forall>r\<in>set (rows df). KW r = None \<longleftrightarrow> KW_STR r = ''nan''"
    using normalize_rows_KW_STR by (auto simp: df)
  have 3: "map_of weekly_summary ''nan'' = Some (sum_km (filter (\<lambda>r. KW r = None) (rows df)))"
    if "\<exists>r\<in>set (rows df). KW r = None"
  proof -
    from that 2 have "''nan'' \<in> KW_STR ` set (rows df)" by force
    moreover have "filter (\<lambda>r. KW_STR r = ''nan'') (rows df) = filter (\<lambda>r. KW r = None) (rows df)"
      by (rule filter_cong) (use 2 in auto)
    ultimately show ?thesis by (simp add: ws weekly_summary_of_def groupby_sum_map_of)
  qed
  have 4: "\<forall>r\<in>set (df_filtered_kws (rows df)). KW r \<noteq> None"
    using 2 nan_not_challenge_week by (auto simp: df_filtered_kws_def)
  have 5: "\<forall>e\<in>set group_weekly. fst (snd e) \<noteq> ''nan''"
  proof
    fix e assume e: "e \<in> set group_weekly"
    then have g: "e \<in> set (group_weekly_of (rows df))" by (simp add: gw split: if_splits)
    then obtain i where i: "i < length (group_weekly_of (rows df))" "group_weekly_of (rows df) ! i = e"
      by (auto simp: in_set_conv_nth)
    obtain g' w km cum where p: "e = (g', w, km, cum)" by (cases e)
    from group_weekly_of_entry [OF i(1)] i(2) p obtain c where
      "c < length CHALLENGE_KWS_STR" "w = CHALLENGE_KWS_STR ! c" by blast
    then have "w \<in> set CHALLENGE_KWS_STR" by simp
    with nan_not_challenge_week show "fst (snd e) \<noteq> ''nan''" by (auto simp: p)
  qed
  from 1 2 3 4 5 nan_not_challenge_week show ?thesis by blast
qed

theorem unparseable_week_nan_bucket_witness:
  "map KW (raw_rows ex_nan_week) = [Some 45, None]
   \<and> map KW_STR (rows (fst (transform_data ex_nan_week))) = [''45.0'', ''nan'']
   \<and> map_of (fst (snd (transform_data ex_nan_week))) ''nan'' = Some 2
   \<and> snd (snd (transform_data ex_nan_week)) = []"
proof -
  have t: "transform_data ex_nan_week =
     (fst (transform_data ex_nan_week), fst (snd (transform_data ex_nan_week)),
      snd (snd (transform_data ex_nan_week)))"
    by simp
  have k: "raw_has_KM ex_nan_week" by (simp add: ex_nan_week_def)
  have r: "map KW (raw_rows ex_nan_week) = [Some 45, None]" by (simp add: ex_nan_week_def)
  have s: "map KW_STR (rows (fst (transform_data ex_nan_week))) = [''45.0'', ''nan'']"
    "snd (snd (transform_data ex_nan_week)) = []"
    "sum_km (filter (\<lambda>r. KW r = None) (rows (fst (transform_data ex_nan_week)))) = 2"
    by code_simp+
  note th = unparseable_week_nan_bucket [OF t k]
  from th [THEN conjunct1] r
  have "None \<in> set (map KW (rows (fst (transform_data ex_nan_week))))"
    by simp
  then have "\<exists>r\<in>set (rows (fst (transform_data ex_nan_week))). KW r = None"
    unfolding set_map image_iff by (rule bexE) (metis bexI)
  with th [THEN conjunct2, THEN conjunct2, THEN conjunct2, THEN conjunct1]
  have "map_of (fst (snd (transform_data ex_nan_week))) ''nan''
      = Some (sum_km (filter (\<lambda>r. KW r = None) (rows (fst (transform_data ex_nan_week)))))"
    by (rule mp)
  with r s show ?thesis
    by simp
qed

end
